theory Spec2Isabelle
  imports Main "HOL-Library.Word"
begin

section \<open>Event binding of the EVM relay (core/services/relay/evm/event_binding.go)\<close>

text \<open>
  The read path of one event binding: the filter lifecycle (\<open>Register\<close>, \<open>Unregister\<close>,
  \<open>Bind\<close>) and \<open>GetLatestValue\<close> with its helpers. Go's \<open>error\<close> results are values of
  the datatype \<open>error\<close>, a nil error is \<open>None\<close>; a runtime panic (index out of range) is the
  outcome \<open>Panic\<close>; the mutable binding and the log poller are passed in and returned.
\<close>

subsection \<open>Errors\<close>

text \<open>
  The three sentinels of \<open>commontypes\<close> that this file wraps, an error produced by a
  collaborator (known by the text its \<open>Error()\<close> returns), and the two shapes of
  \<open>fmt.Errorf\<close> the file uses: \<open>fmt.Errorf("%w: %w", a, b)\<close> and
  \<open>fmt.Errorf("%w: <text>", a)\<close>.
\<close>

datatype error =
    ErrInvalidType
  | ErrNotFound
  | ErrInternal
  | External string
  | Errorf2 error error
  | ErrorfMsg error string

text \<open>
  \<open>err.Error()\<close>. The texts of the three sentinels are declared in chainlink-common, not in
  this repository: they are the parameter \<open>st\<close>.
\<close>

fun Error :: "(error \<Rightarrow> string) \<Rightarrow> error \<Rightarrow> string" where
  "Error st ErrInvalidType = st ErrInvalidType"
| "Error st ErrNotFound = st ErrNotFound"
| "Error st ErrInternal = st ErrInternal"
| "Error st (External s) = s"
| "Error st (Errorf2 a b) = Error st a @ '': '' @ Error st b"
| "Error st (ErrorfMsg a s) = Error st a @ '': '' @ s"

text \<open>\<open>errors.Is(err, target)\<close>: \<open>err\<close> is \<open>target\<close> or wraps it, at any depth.\<close>

fun errors_Is :: "error \<Rightarrow> error \<Rightarrow> bool" where
  "errors_Is (Errorf2 a b) target =
     (Errorf2 a b = target \<or> errors_Is a target \<or> errors_Is b target)"
| "errors_Is (ErrorfMsg a s) target = (ErrorfMsg a s = target \<or> errors_Is a target)"
| "errors_Is err target = (err = target)"

text \<open>\<open>strings.Contains(s, substr)\<close>.\<close>

fun hasPrefix :: "string \<Rightarrow> string \<Rightarrow> bool" where
  "hasPrefix s [] = True"
| "hasPrefix [] (c # substr) = False"
| "hasPrefix (d # s) (c # substr) = (d = c \<and> hasPrefix s substr)"

fun Contains :: "string \<Rightarrow> string \<Rightarrow> bool" where
  "Contains [] substr = (substr = [])"
| "Contains (d # s) substr = (hasPrefix (d # s) substr \<or> Contains s substr)"

text \<open>\<open>wrapInternalErr\<close> (lines 260-270).\<close>

definition wrapInternalErr :: "(error \<Rightarrow> string) \<Rightarrow> error option \<Rightarrow> error option" where
  "wrapInternalErr st err =
     (case err of
        None \<Rightarrow> None
      | Some e \<Rightarrow>
          (let errStr = Error st e in
           if Contains errStr ''not found'' \<or> Contains errStr ''no rows''
           then Some (Errorf2 ErrNotFound e)
           else Some (Errorf2 ErrInternal e)))"

subsection \<open>Logs, filters and the log poller\<close>

type_synonym byte = "8 word"

text \<open>\<open>common.Hash\<close> is \<open>[32]byte\<close> and \<open>common.Address\<close> is \<open>[20]byte\<close>: lists of bytes here.\<close>

type_synonym Hash = "byte list"
type_synonym Address = "byte list"

text \<open>
  \<open>logpoller.Log\<close>, the fields this file reads: \<open>BlockNumber\<close> and \<open>LogIndex\<close> are
  \<open>int64\<close> (\<open>compareLogs\<close> returns their difference as \<open>int64\<close>), \<open>Topics\<close> is a slice of
  byte slices, \<open>Data\<close> a byte slice.
\<close>

record Log =
  BlockNumber :: "64 word"
  LogIndex :: "64 word"
  Topics :: "byte list list"
  Data :: "byte list"

text \<open>\<open>logpoller.Filter\<close> as \<open>Register\<close> builds it.\<close>

record Filter =
  Name :: string
  EventSigs :: "Hash list"
  Addresses :: "Address list"

text \<open>\<open>logpoller.Confirmations\<close>: the two values used.\<close>

datatype Confirmations = Finalized | Unconfirmed

text \<open>The calls a binding makes on its log poller, with their arguments.\<close>

datatype lp_call =
    CallHasFilter string
  | CallRegisterFilter Filter
  | CallUnregisterFilter string
  | CallLatestLogByEventSigWithConfs Hash Address Confirmations
  | CallIndexedLogs Hash Address int "Hash list" Confirmations

text \<open>
  Modelled from the spec: the log source (the interface \<open>logpoller.LogPoller\<close>, whose
  implementation is not among the source files). Section 9 of the specification treats
  it as an opaque keyed set of filters with add, remove and has, each atomic; section 6
  lets \<open>RegisterFilter\<close> and \<open>UnregisterFilter\<close> fail, and the two queries return logs
  or fail. Here \<open>filterSet\<close> is the keyed set; \<open>outcomes\<close> scripts the results of the
  coming filter mutations, one entry per call (\<open>Some err\<close> makes the call fail and leave
  the set as it is; an empty script means success); \<open>latestLog\<close> and \<open>indexedLogs\<close> are
  the answers to the two queries; \<open>calls\<close> records every call received, in order.
\<close>

record LogPoller =
  filterSet :: "string \<rightharpoonup> Filter"
  outcomes :: "error option list"
  latestLog :: "Hash \<Rightarrow> Address \<Rightarrow> Confirmations \<Rightarrow> error + Log"
  indexedLogs :: "Hash \<Rightarrow> Address \<Rightarrow> int \<Rightarrow> Hash list \<Rightarrow> Confirmations \<Rightarrow> error + Log list"
  calls :: "lp_call list"

definition nextOutcome :: "LogPoller \<Rightarrow> error option" where
  "nextOutcome lp = (case outcomes lp of [] \<Rightarrow> None | r # _ \<Rightarrow> r)"

definition HasFilter :: "LogPoller \<Rightarrow> string \<Rightarrow> bool \<times> LogPoller" where
  "HasFilter lp name =
     (filterSet lp name \<noteq> None, lp\<lparr>calls := calls lp @ [CallHasFilter name]\<rparr>)"

definition RegisterFilter :: "LogPoller \<Rightarrow> Filter \<Rightarrow> error option \<times> LogPoller" where
  "RegisterFilter lp f =
     (let lp1 = lp\<lparr>calls := calls lp @ [CallRegisterFilter f], outcomes := tl (outcomes lp)\<rparr>
      in case nextOutcome lp of
           Some err \<Rightarrow> (Some err, lp1)
         | None \<Rightarrow> (None, lp1\<lparr>filterSet := (filterSet lp)(Name f \<mapsto> f)\<rparr>))"

definition UnregisterFilter :: "LogPoller \<Rightarrow> string \<Rightarrow> error option \<times> LogPoller" where
  "UnregisterFilter lp name =
     (let lp1 = lp\<lparr>calls := calls lp @ [CallUnregisterFilter name], outcomes := tl (outcomes lp)\<rparr>
      in case nextOutcome lp of
           Some err \<Rightarrow> (Some err, lp1)
         | None \<Rightarrow> (None, lp1\<lparr>filterSet := (filterSet lp)(name := None)\<rparr>))"

definition LatestLogByEventSigWithConfs ::
  "LogPoller \<Rightarrow> Hash \<Rightarrow> Address \<Rightarrow> Confirmations \<Rightarrow> (error + Log) \<times> LogPoller" where
  "LatestLogByEventSigWithConfs lp eventSig addr confs =
     (latestLog lp eventSig addr confs,
      lp\<lparr>calls := calls lp @ [CallLatestLogByEventSigWithConfs eventSig addr confs]\<rparr>)"

definition IndexedLogs ::
  "LogPoller \<Rightarrow> Hash \<Rightarrow> Address \<Rightarrow> int \<Rightarrow> Hash list \<Rightarrow> Confirmations
     \<Rightarrow> (error + Log list) \<times> LogPoller" where
  "IndexedLogs lp eventSig addr topicIndex topicValues confs =
     (indexedLogs lp eventSig addr topicIndex topicValues confs,
      lp\<lparr>calls := calls lp @ [CallIndexedLogs eventSig addr topicIndex topicValues confs]\<rparr>)"

subsection \<open>The binding\<close>

text \<open>\<open>codecEntry\<close>: this file reads only \<open>Args\<close> (the arguments, by name here).\<close>

record codecEntry =
  Args :: "string list"

text \<open>
  \<open>eventBinding\<close> (lines 23-40). The collaborators \<open>lp\<close>, \<open>codec\<close> and \<open>inputModifier\<close>
  are passed to the operations; the mutex is not modelled (one operation at a time).
\<close>

record eventBinding =
  address :: Address
  contractName :: string
  eventName :: string
  hash :: Hash
  pending :: bool
  bound :: bool
  registerCalled :: bool
  inputInfo :: codecEntry
  topicInfo :: codecEntry
  id' :: string

text \<open>\<open>commontypes.BoundContract\<close>, the fields \<open>Bind\<close> reads.\<close>

record BoundContract =
  Address :: string
  Pending :: bool

text \<open>\<open>Register\<close> (lines 48-65).\<close>

definition Register :: "eventBinding \<Rightarrow> LogPoller \<Rightarrow> error option \<times> eventBinding \<times> LogPoller" where
  "Register e lp =
     (let e1 = e\<lparr>registerCalled := True\<rparr> in
      if \<not> bound e1 then (None, e1, lp)
      else case HasFilter lp (id' e1) of
        (True, lp1) \<Rightarrow> (None, e1, lp1)
      | (False, lp1) \<Rightarrow>
          (case RegisterFilter lp1
                  \<lparr>Name = id' e1, EventSigs = [hash e1], Addresses = [address e1]\<rparr> of
             (Some err, lp2) \<Rightarrow> (Some (Errorf2 ErrInternal err), e1, lp2)
           | (None, lp2) \<Rightarrow> (None, e1, lp2)))"

text \<open>\<open>Unregister\<close> (lines 67-79).\<close>

definition Unregister :: "eventBinding \<Rightarrow> LogPoller \<Rightarrow> error option \<times> eventBinding \<times> LogPoller" where
  "Unregister e lp =
     (case HasFilter lp (id' e) of
        (False, lp1) \<Rightarrow> (None, e, lp1)
      | (True, lp1) \<Rightarrow>
          (case UnregisterFilter lp1 (id' e) of
             (Some err, lp2) \<Rightarrow> (Some (Errorf2 ErrInternal err), e, lp2)
           | (None, lp2) \<Rightarrow> (None, e, lp2)))"

text \<open>
  \<open>Bind\<close> (lines 98-111). \<open>common.HexToAddress\<close> is go-ethereum's: the parameter
  \<open>HexToAddress\<close>.
\<close>

definition Bind ::
  "(string \<Rightarrow> Address) \<Rightarrow> eventBinding \<Rightarrow> LogPoller \<Rightarrow> BoundContract
     \<Rightarrow> error option \<times> eventBinding \<times> LogPoller" where
  "Bind HexToAddress e lp binding =
     (case Unregister e lp of
        (Some err, e1, lp1) \<Rightarrow> (Some err, e1, lp1)
      | (None, e1, lp1) \<Rightarrow>
          (let e2 = e1\<lparr>address := HexToAddress (Address binding),
                       pending := Pending binding,
                       bound := True\<rparr>
           in if registerCalled e2 then Register e2 lp1 else (None, e2, lp1)))"

subsection \<open>Selecting the latest matching log\<close>

datatype 'a outcome = Panic | Return 'a

text \<open>\<open>compareLogs\<close> (lines 181-191): the differences are \<open>int64\<close> subtractions, which wrap.\<close>

definition compareLogs :: "Log \<Rightarrow> Log option \<Rightarrow> 64 word" where
  "compareLogs log use =
     (case use of
        None \<Rightarrow> 1
      | Some u \<Rightarrow>
          if BlockNumber log \<noteq> BlockNumber u then BlockNumber log - BlockNumber u
          else LogIndex log - LogIndex u)"

text \<open>
  \<open>matchesRemainingFilters\<close> (lines 193-201): \<open>matchesFrom i\<close> is the loop from index
  \<open>i\<close> on. \<open>log.Topics[i+2]\<close> is not guarded: out of range it panics.
  \<open>reflect.DeepEqual\<close> of a 32-byte slice and a byte slice is equality of the bytes.
\<close>

fun matchesFrom :: "nat \<Rightarrow> Log \<Rightarrow> Hash list \<Rightarrow> bool outcome" where
  "matchesFrom i log [] = Return True"
| "matchesFrom i log (rfai # filters) =
     (if i + 2 < length (Topics log) then
        (if rfai \<noteq> Topics log ! (i + 2) then Return False
         else matchesFrom (i + 1) log filters)
      else Panic)"

definition matchesRemainingFilters :: "Log \<Rightarrow> Hash list \<Rightarrow> bool outcome" where
  "matchesRemainingFilters log filters = matchesFrom 0 log filters"

text \<open>
  The loop of \<open>getLatestValueWithFilters\<close> (lines 151-158) over the logs still to visit,
  with the current \<open>logToUse\<close>. \<open>&&\<close> evaluates \<open>matchesRemainingFilters\<close> only when
  \<open>compareLogs\<close> is positive.
\<close>

fun selectLogToUse :: "Log list \<Rightarrow> Log option \<Rightarrow> Hash list \<Rightarrow> Log option outcome" where
  "selectLogToUse [] logToUse remainingFilters = Return logToUse"
| "selectLogToUse (log # logs) logToUse remainingFilters =
     (if 0 <s compareLogs log logToUse then
        (case matchesRemainingFilters log remainingFilters of
           Panic \<Rightarrow> Panic
         | Return True \<Rightarrow> selectLogToUse logs (Some log) remainingFilters
         | Return False \<Rightarrow> selectLogToUse logs logToUse remainingFilters)
      else selectLogToUse logs logToUse remainingFilters)"

subsection \<open>Decoding and \<open>GetLatestValue\<close>\<close>

text \<open>
  The collaborators of the read path, none of which is among the source files; \<open>'v\<close> is
  the type of the values Go passes as \<open>any\<close> (\<open>params\<close>, \<open>into\<close> and the values built
  from them). A function that fills a value through a pointer returns the filled value.
  \<^item> \<open>WrapItemType contractName eventName isParams\<close>: the item name of the codec;
  \<^item> \<open>CreateType\<close> and \<open>Decode\<close>: the methods of \<open>e.codec\<close>; \<open>Decode raw into itemType\<close>
    gives the decoded \<open>into\<close>;
  \<^item> \<open>mapstructureDecode input output\<close>: gives the filled \<open>output\<close>;
  \<^item> \<open>TransformForOnChain\<close>: the method of \<open>e.inputModifier\<close>;
  \<^item> \<open>encodeParams\<close> (lines 134-135 and 203-235) walks the checked parameters by
    reflection and calls \<open>representArray\<close>, \<open>unrollItem\<close> and \<open>abi.MakeTopics\<close>: it is taken
    whole, as the function from the checked parameters to the topic hashes or an error;
  \<^item> \<open>ParseTopics fields topics\<close>: \<open>abi.ParseTopics\<close>, giving the filled \<open>topicsInto\<close>;
  \<^item> \<open>sentinelText\<close>: the texts of the sentinel errors (see \<open>Error\<close>).
\<close>

record 'v collaborators =
  WrapItemType :: "string \<Rightarrow> string \<Rightarrow> bool \<Rightarrow> string"
  CreateType :: "string \<Rightarrow> bool \<Rightarrow> error + 'v"
  Decode :: "byte list \<Rightarrow> 'v \<Rightarrow> string \<Rightarrow> error + 'v"
  mapstructureDecode :: "'v \<Rightarrow> 'v \<Rightarrow> error + 'v"
  TransformForOnChain :: "'v \<Rightarrow> error + 'v"
  encodeParams :: "'v \<Rightarrow> error + Hash list"
  ParseTopics :: "string list \<Rightarrow> Hash list \<Rightarrow> error + 'v"
  sentinelText :: "error \<Rightarrow> string"

text \<open>
  \<open>common.Hash(b)\<close> for a byte slice \<open>b\<close>: the conversion of a slice to an array panics
  when the slice is shorter than the array.
\<close>

fun toHashes :: "byte list list \<Rightarrow> Hash list outcome" where
  "toHashes [] = Return []"
| "toHashes (t # ts) =
     (if length t < 32 then Panic
      else case toHashes ts of Panic \<Rightarrow> Panic | Return hs \<Rightarrow> Return (take 32 t # hs))"

text \<open>
  \<open>decodeLog\<close> (lines 237-258). The result is the error, or the filled \<open>into\<close> when the
  error is nil.
\<close>

definition decodeLog :: "'v collaborators \<Rightarrow> eventBinding \<Rightarrow> Log \<Rightarrow> 'v \<Rightarrow> (error + 'v) outcome" where
  "decodeLog c e log into =
     (let dataType = WrapItemType c (contractName e) (eventName e) False in
      case Decode c (Data log) into dataType of
        Inl err \<Rightarrow> Return (Inl err)
      | Inr into1 \<Rightarrow>
          (let n = length (Args (topicInfo e)) in
           if length (Topics log) < n + 1
           then Return (Inl (ErrorfMsg ErrInvalidType ''not enough topics to decode''))
           else case toHashes (map (\<lambda>i. Topics log ! (i + 1)) [0..<n]) of
                  Panic \<Rightarrow> Panic
                | Return topics \<Rightarrow>
                    (case ParseTopics c (Args (topicInfo e)) topics of
                       Inl err \<Rightarrow> Return (Inl (Errorf2 ErrInvalidType err))
                     | Inr topicsInto \<Rightarrow> Return (mapstructureDecode c topicsInto into1))))"

text \<open>\<open>convertToOffChainType\<close> (lines 167-179).\<close>

definition convertToOffChainType :: "'v collaborators \<Rightarrow> eventBinding \<Rightarrow> 'v \<Rightarrow> error + 'v" where
  "convertToOffChainType c e params =
     (let itemType = WrapItemType c (contractName e) (eventName e) True in
      case CreateType c itemType True of
        Inl err \<Rightarrow> Inl err
      | Inr offChain \<Rightarrow>
          (case mapstructureDecode c params offChain of
             Inl err \<Rightarrow> Inl err
           | Inr offChain1 \<Rightarrow> Inr offChain1))"

text \<open>
  \<open>getLatestValueWithoutFilters\<close> (lines 113-120). The error of the log poller goes
  through \<open>wrapInternalErr\<close>, and the log is decoded when the wrapped error is nil. An
  error comes without a log: decoding after one would dereference a nil log (not
  reachable, the wrapped error of an error is never nil).
\<close>

definition getLatestValueWithoutFilters ::
  "'v collaborators \<Rightarrow> eventBinding \<Rightarrow> LogPoller \<Rightarrow> Confirmations \<Rightarrow> 'v
     \<Rightarrow> (error + 'v) outcome \<times> LogPoller" where
  "getLatestValueWithoutFilters c e lp confs into =
     (case LatestLogByEventSigWithConfs lp (hash e) (address e) confs of
        (r, lp1) \<Rightarrow>
          (case wrapInternalErr (sentinelText c)
                  (case r of Inl err \<Rightarrow> Some err | Inr log \<Rightarrow> None) of
             Some err \<Rightarrow> (Return (Inl err), lp1)
           | None \<Rightarrow>
               (case r of
                  Inl err \<Rightarrow> (Panic, lp1)
                | Inr log \<Rightarrow> (decodeLog c e log into, lp1))))"

text \<open>
  The result of \<open>return wrapInternalErr(err)\<close> in \<open>getLatestValueWithFilters\<close>: were the
  wrapped error nil, the caller would see success with \<open>into\<close> as it was.
\<close>

definition returnWrapped :: "'v collaborators \<Rightarrow> error \<Rightarrow> 'v \<Rightarrow> error + 'v" where
  "returnWrapped c err into =
     (case wrapInternalErr (sentinelText c) (Some err) of None \<Rightarrow> Inr into | Some w \<Rightarrow> Inl w)"

text \<open>
  \<open>getLatestValueWithFilters\<close> (lines 122-165). \<open>filtersAndIndices[0]\<close> panics on an
  empty slice.
\<close>

definition getLatestValueWithFilters ::
  "'v collaborators \<Rightarrow> eventBinding \<Rightarrow> LogPoller \<Rightarrow> Confirmations \<Rightarrow> 'v \<Rightarrow> 'v
     \<Rightarrow> (error + 'v) outcome \<times> LogPoller" where
  "getLatestValueWithFilters c e lp confs params into =
     (case convertToOffChainType c e params of
        Inl err \<Rightarrow> (Return (Inl err), lp)
      | Inr offChain \<Rightarrow>
     (case TransformForOnChain c offChain of
        Inl err \<Rightarrow> (Return (Inl err), lp)
      | Inr checkedParams \<Rightarrow>
     (case encodeParams c checkedParams of
        Inl err \<Rightarrow> (Return (Inl err), lp)
      | Inr filtersAndIndices \<Rightarrow>
     (case filtersAndIndices of
        [] \<Rightarrow> (Panic, lp)
      | fai # remainingFilters \<Rightarrow>
     (case IndexedLogs lp (hash e) (address e) 1 [fai] confs of
        (Inl err, lp1) \<Rightarrow> (Return (returnWrapped c err into), lp1)
      | (Inr logs, lp1) \<Rightarrow>
     (case selectLogToUse logs None remainingFilters of
        Panic \<Rightarrow> (Panic, lp1)
      | Return None \<Rightarrow> (Return (Inl (ErrorfMsg ErrNotFound ''no events found'')), lp1)
      | Return (Some logToUse) \<Rightarrow> (decodeLog c e logToUse into, lp1)))))))"

text \<open>\<open>GetLatestValue\<close> (lines 81-96).\<close>

definition GetLatestValue ::
  "'v collaborators \<Rightarrow> eventBinding \<Rightarrow> LogPoller \<Rightarrow> 'v \<Rightarrow> 'v
     \<Rightarrow> (error + 'v) outcome \<times> LogPoller" where
  "GetLatestValue c e lp params into =
     (if \<not> bound e then (Return (Inl (ErrorfMsg ErrInvalidType ''event not bound'')), lp)
      else
        (let confs = (if pending e then Unconfirmed else Finalized) in
         if length (Args (inputInfo e)) = 0
         then getLatestValueWithoutFilters c e lp confs into
         else getLatestValueWithFilters c e lp confs params into))"

subsection \<open>Sequences of lifecycle operations\<close>

text \<open>
  A caller's operations on one binding, run in order against the log poller. The error an
  operation returns goes to the caller; the binding and the log poller carry on.
\<close>

datatype op = OpRegister | OpUnregister | OpBind BoundContract

fun step :: "(string \<Rightarrow> Address) \<Rightarrow> op \<Rightarrow> eventBinding \<times> LogPoller \<Rightarrow> eventBinding \<times> LogPoller" where
  "step HexToAddress OpRegister (e, lp) = snd (Register e lp)"
| "step HexToAddress OpUnregister (e, lp) = snd (Unregister e lp)"
| "step HexToAddress (OpBind binding) (e, lp) = snd (Bind HexToAddress e lp binding)"

text \<open>The states reached after each operation of the sequence, the first one included.\<close>

fun statesOf ::
  "(string \<Rightarrow> Address) \<Rightarrow> op list \<Rightarrow> eventBinding \<times> LogPoller \<Rightarrow> (eventBinding \<times> LogPoller) list" where
  "statesOf HexToAddress [] s = [s]"
| "statesOf HexToAddress (x # xs) s = s # statesOf HexToAddress xs (step HexToAddress x s)"

fun isRegisterFilterCall :: "lp_call \<Rightarrow> bool" where
  "isRegisterFilterCall (CallRegisterFilter f) = True"
| "isRegisterFilterCall other = False"

subsection \<open>Notions of the specification\<close>



text \<open>
  The narrowing of the specification: the topic of the log at slot \<open>i + 2\<close> equals the
  \<open>i\<close>-th remaining topic hash, for every \<open>i\<close> below their number.
\<close>

definition topicsMatch :: "Log \<Rightarrow> Hash list \<Rightarrow> bool" where
  "topicsMatch l fs = list_all (\<lambda>i. Topics l ! (i + 2) = fs ! i) [0..<length fs]"



subsection \<open>A concrete codec, binding and log poller\<close>

text \<open>
  Values on which the operations are run: a codec whose values are lists of hashes (the
  parameters are the topic hashes themselves, a decoded value is the data followed by the
  topics), a bound binding with two indexed fields, a log poller that answers every
  indexed query with the given logs, and logs with three topics.
\<close>

definition exampleCodec :: "Hash list collaborators" where
  "exampleCodec =
     \<lparr>WrapItemType = (\<lambda>contract event isParams. contract @ ''.'' @ event),
      CreateType = (\<lambda>itemType forEncoding. Inr []),
      Decode = (\<lambda>raw into itemType. Inr [raw]),
      mapstructureDecode = (\<lambda>input output. Inr (output @ input)),
      TransformForOnChain = (\<lambda>offChain. Inr offChain),
      encodeParams = (\<lambda>checkedParams. Inr checkedParams),
      ParseTopics = (\<lambda>fields topics. Inr topics),
      sentinelText = (\<lambda>err. ''sentinel'')\<rparr>"

definition exampleHash :: "byte \<Rightarrow> Hash" where
  "exampleHash b = replicate 32 b"

definition exampleBinding :: eventBinding where
  "exampleBinding =
     \<lparr>address = replicate 20 1, contractName = ''Contract'', eventName = ''Event'',
      hash = exampleHash 9, pending = False, bound = True, registerCalled = False,
      inputInfo = \<lparr>Args = [''a'', ''b'']\<rparr>, topicInfo = \<lparr>Args = [''a'', ''b'']\<rparr>,
      id' = ''binding-1''\<rparr>"

definition exampleLogPoller :: "Log list \<Rightarrow> LogPoller" where
  "exampleLogPoller logs =
     \<lparr>filterSet = Map.empty, outcomes = [],
      latestLog = (\<lambda>eventSig addr confs. Inl (External ''no rows in result set'')),
      indexedLogs = (\<lambda>eventSig addr topicIndex topicValues confs. Inr logs),
      calls = []\<rparr>"

definition exampleLog :: "64 word \<Rightarrow> 64 word \<Rightarrow> byte \<Rightarrow> byte \<Rightarrow> Log" where
  "exampleLog block index t1 t2 =
     \<lparr>BlockNumber = block, LogIndex = index,
      Topics = [exampleHash 9, exampleHash t1, exampleHash t2], Data = []\<rparr>"

text \<open>A log that carries the signature topic and one indexed topic only.\<close>

definition exampleShortLog :: "64 word \<Rightarrow> 64 word \<Rightarrow> byte \<Rightarrow> Log" where
  "exampleShortLog block index t1 =
     \<lparr>BlockNumber = block, LogIndex = index,
      Topics = [exampleHash 9, exampleHash t1], Data = []\<rparr>"

text \<open>The binding with one input field, and with three input and topic fields.\<close>

definition exampleOneInput :: eventBinding where
  "exampleOneInput = exampleBinding\<lparr>inputInfo := \<lparr>Args = [''a'']\<rparr>\<rparr>"

definition exampleThreeInputs :: eventBinding where
  "exampleThreeInputs =
     exampleBinding\<lparr>inputInfo := \<lparr>Args = [''a'', ''b'', ''c'']\<rparr>,
                    topicInfo := \<lparr>Args = [''a'', ''b'', ''c'']\<rparr>\<rparr>"

text \<open>A codec whose \<open>Decode\<close> fails with an error of its own.\<close>

definition exampleFailingCodec :: "Hash list collaborators" where
  "exampleFailingCodec =
     exampleCodec\<lparr>Decode := (\<lambda>raw into itemType. Inl (External ''abi: cannot unmarshal''))\<rparr>"

text \<open>
  A stand-in for \<open>common.HexToAddress\<close>, a second binding on the same event and address
  with another subscription identifier, and the log poller after \<open>Register\<close> on the bound
  binding.
\<close>

definition exampleHexToAddress :: "string \<Rightarrow> Address" where
  "exampleHexToAddress s = replicate 20 (of_nat (length s))"

definition exampleOtherBinding :: eventBinding where
  "exampleOtherBinding = exampleBinding\<lparr>id' := ''binding-2''\<rparr>"

definition exampleRegistered :: LogPoller where
  "exampleRegistered = snd (snd (Register exampleBinding (exampleLogPoller [])))"

section \<open>Properties\<close>

subsection \<open>Signed differences and the comparison of logs\<close>





lemma compareLogs_None: "0 <s compareLogs l None"
  by (simp add: compareLogs_def word_sless_alt)




subsection \<open>Narrowing and selection\<close>

lemma upt_2: "[0..<2] = [0, Suc 0]"
  by (simp add: upt_rec [of 0] upt_rec [of "Suc 0"] numeral_2_eq_2)

lemma topicsMatch_iff: "topicsMatch l fs = (\<forall>i<length fs. Topics l ! (i + 2) = fs ! i)"
  by (auto simp: topicsMatch_def list_all_iff)

lemma matchesFrom_total:
  "i + length fs + 2 \<le> length (Topics l) \<Longrightarrow>
   matchesFrom i l fs = Return (\<forall>j<length fs. Topics l ! (i + j + 2) = fs ! j)"
proof (induction fs arbitrary: i)
  case Nil
  then show ?case by simp
next
  case (Cons f fs)
  have step: "matchesFrom (Suc i) l fs = Return (\<forall>j<length fs. Topics l ! (Suc i + j + 2) = fs ! j)"
    using Cons.prems by (intro Cons.IH) simp
  have split: "(\<forall>j<length (f # fs). Topics l ! (i + j + 2) = (f # fs) ! j)
      = (Topics l ! (i + 2) = f \<and> (\<forall>j<length fs. Topics l ! (Suc i + j + 2) = fs ! j))"
    by (auto simp: less_Suc_eq_0_disj)
  show ?case
    using Cons.prems unfolding split by (auto simp: step)
qed

lemma matchesRemainingFilters_total:
  "length fs + 2 \<le> length (Topics l) \<Longrightarrow> matchesRemainingFilters l fs = Return (topicsMatch l fs)"
  using matchesFrom_total [of 0 fs l] by (simp add: matchesRemainingFilters_def topicsMatch_iff)






lemma selectLogToUse_no_panic:
  assumes "\<forall>l\<in>set logs. length fs + 2 \<le> length (Topics l)"
  shows "selectLogToUse logs acc fs \<noteq> Panic"
  using assms
proof (induction logs arbitrary: acc)
  case Nil
  then show ?case by simp
next
  case (Cons log logs)
  have m: "matchesRemainingFilters log fs = Return (topicsMatch log fs)"
    using Cons.prems by (intro matchesRemainingFilters_total) simp
  have rest: "\<forall>l\<in>set logs. length fs + 2 \<le> length (Topics l)"
    using Cons.prems by simp
  show ?case
    using Cons.IH [OF rest] m by (simp split: bool.splits)
qed

lemma matchesFrom_True_iff:
  "(matchesFrom i l fs = Return True) =
     (\<forall>j<length fs. i + j + 2 < length (Topics l) \<and> Topics l ! (i + j + 2) = fs ! j)"
proof (induction fs arbitrary: i)
  case Nil
  then show ?case by simp
next
  case (Cons f fs)
  have split: "(\<forall>j<length (f # fs). i + j + 2 < length (Topics l) \<and> Topics l ! (i + j + 2) = (f # fs) ! j)
      = ((i + 2 < length (Topics l) \<and> Topics l ! (i + 2) = f)
         \<and> (\<forall>j<length fs. Suc i + j + 2 < length (Topics l) \<and> Topics l ! (Suc i + j + 2) = fs ! j))"
    by (auto simp: less_Suc_eq_0_disj)
  show ?case
    unfolding split using Cons.IH [of "Suc i"] by auto
qed

lemma matchesRemainingFilters_True_iff:
  "(matchesRemainingFilters l fs = Return True) =
     (\<forall>i<length fs. i + 2 < length (Topics l) \<and> Topics l ! (i + 2) = fs ! i)"
  using matchesFrom_True_iff [of 0 l fs] by (simp add: matchesRemainingFilters_def)

lemma selectLogToUse_Some_kept: "selectLogToUse logs (Some u) fs \<noteq> Return None"
proof (induction logs arbitrary: u)
  case Nil
  then show ?case by simp
next
  case (Cons log logs)
  show ?case
    using Cons.IH [of u] Cons.IH [of log]
    by (simp split: outcome.splits bool.splits)
qed

lemma selectLogToUse_None_result:
  "selectLogToUse logs None fs = Return None \<Longrightarrow>
   \<forall>l\<in>set logs. matchesRemainingFilters l fs = Return False"
proof (induction logs)
  case Nil
  then show ?case by simp
next
  case (Cons log logs)
  from Cons.prems have m: "matchesRemainingFilters log fs = Return False"
    and rest: "selectLogToUse logs None fs = Return None"
    using selectLogToUse_Some_kept [of logs log fs]
    by (auto simp: compareLogs_None split: outcome.splits bool.splits)
  with Cons.IH show ?case by simp
qed

lemma selectLogToUse_Some_result:
  "selectLogToUse logs acc fs = Return (Some u) \<Longrightarrow>
   acc = Some u \<or> (u \<in> set logs \<and> matchesRemainingFilters u fs = Return True)"
proof (induction logs arbitrary: acc)
  case Nil
  then show ?case by simp
next
  case (Cons log logs)
  show ?case
  proof (cases "0 <s compareLogs log acc \<and> matchesRemainingFilters log fs = Return True")
    case True
    with Cons.prems have "selectLogToUse logs (Some log) fs = Return (Some u)" by simp
    from Cons.IH [OF this] True show ?thesis by auto
  next
    case False
    with Cons.prems have "selectLogToUse logs acc fs = Return (Some u)"
      by (auto split: if_splits outcome.splits bool.splits)
    from Cons.IH [OF this] show ?thesis by auto
  qed
qed




subsection \<open>Topics out of range\<close>

lemma matchesFrom_short:
  assumes "length (Topics l) < i + length fs + 2" and "fs \<noteq> []"
  shows "matchesFrom i l fs =
     (if \<forall>j. i + j + 2 < length (Topics l) \<longrightarrow> Topics l ! (i + j + 2) = fs ! j
      then Panic else Return False)"
  using assms
proof (induction fs arbitrary: i)
  case Nil
  then show ?case by simp
next
  case (Cons f fs)
  show ?case
  proof (cases "i + 2 < length (Topics l)")
    case False
    then have "\<forall>j. \<not> i + j + 2 < length (Topics l)" by auto
    with False show ?thesis by simp
  next
    case True
    show ?thesis
    proof (cases "f = Topics l ! (i + 2)")
      case False
      with True have "\<not> (\<forall>j. i + j + 2 < length (Topics l) \<longrightarrow> Topics l ! (i + j + 2) = (f # fs) ! j)"
        by (auto intro: exI [of _ 0])
      with True False show ?thesis by simp
    next
      case same: True
      from True Cons.prems have ne: "fs \<noteq> []" by auto
      from Cons.prems have len: "length (Topics l) < Suc i + length fs + 2" by simp
      have "(\<forall>j. i + j + 2 < length (Topics l) \<longrightarrow> Topics l ! (i + j + 2) = (f # fs) ! j)
          = (\<forall>j. Suc i + j + 2 < length (Topics l) \<longrightarrow> Topics l ! (Suc i + j + 2) = fs ! j)"
        (is "?L = ?R")
      proof
        assume l: ?L
        show ?R
        proof (intro allI impI)
          fix j assume "Suc i + j + 2 < length (Topics l)"
          with l [rule_format, of "Suc j"] show "Topics l ! (Suc i + j + 2) = fs ! j" by simp
        qed
      next
        assume r: ?R
        show ?L
        proof (intro allI impI)
          fix j assume j: "i + j + 2 < length (Topics l)"
          show "Topics l ! (i + j + 2) = (f # fs) ! j"
          proof (cases j)
            case 0
            with same show ?thesis by simp
          next
            case (Suc j')
            with j r [rule_format, of j'] show ?thesis by simp
          qed
        qed
      qed
      with Cons.IH [OF len ne] True same show ?thesis by simp
    qed
  qed
qed

text \<open>
  C9, as the code has it. The narrowing reads the topics of a candidate from slot 2 on
  without a bounds check. When every candidate carries at least \<open>k + 2\<close> topics, for
  \<open>k\<close> remaining hashes, the selection does not panic. A candidate with fewer topics, for
  \<open>k > 0\<close>, makes \<open>matchesRemainingFilters\<close> panic exactly when every slot from 2 on that
  it does carry equals the corresponding hash, and is rejected without an error when one
  of them differs. The panic of an examined candidate is the panic of the selection and of
  \<open>GetLatestValue\<close>; a candidate that is not newer than the current selection is not
  examined at all. With no remaining hash no topic is read and every candidate matches.
\<close>

theorem narrowing_out_of_bounds:
  "((\<forall>l\<in>set logs. length remainingFilters + 2 \<le> length (Topics l)) \<longrightarrow>
       selectLogToUse logs logToUse remainingFilters \<noteq> Panic)
   \<and> (remainingFilters \<noteq> [] \<and> length (Topics log) < length remainingFilters + 2 \<longrightarrow>
       matchesRemainingFilters log remainingFilters =
         (if \<forall>i. i + 2 < length (Topics log) \<longrightarrow> Topics log ! (i + 2) = remainingFilters ! i
          then Panic else Return False))
   \<and> (0 <s compareLogs log logToUse \<and> matchesRemainingFilters log remainingFilters = Panic \<longrightarrow>
       selectLogToUse (log # logs) logToUse remainingFilters = Panic)
   \<and> (0 <s compareLogs log logToUse \<and> matchesRemainingFilters log remainingFilters = Return False \<longrightarrow>
       selectLogToUse (log # logs) logToUse remainingFilters =
         selectLogToUse logs logToUse remainingFilters)
   \<and> (\<not> 0 <s compareLogs log logToUse \<longrightarrow>
       selectLogToUse (log # logs) logToUse remainingFilters =
         selectLogToUse logs logToUse remainingFilters)
   \<and> matchesRemainingFilters log [] = Return True
   \<and> (bound e \<and> Args (inputInfo e) \<noteq> []
        \<and> convertToOffChainType c e params = Inr offChain
        \<and> TransformForOnChain c offChain = Inr checkedParams
        \<and> encodeParams c checkedParams = Inr (fai # remainingFilters)
        \<and> indexedLogs lp (hash e) (address e) 1 [fai]
             (if pending e then Unconfirmed else Finalized) = Inr candidates
        \<and> selectLogToUse candidates None remainingFilters = Panic \<longrightarrow>
       fst (GetLatestValue c e lp params into) = Panic)"
proof -
  have a: "(\<forall>l\<in>set logs. length remainingFilters + 2 \<le> length (Topics l)) \<longrightarrow>
       selectLogToUse logs logToUse remainingFilters \<noteq> Panic"
    using selectLogToUse_no_panic by blast
  have b: "remainingFilters \<noteq> [] \<and> length (Topics log) < length remainingFilters + 2 \<longrightarrow>
       matchesRemainingFilters log remainingFilters =
         (if \<forall>i. i + 2 < length (Topics log) \<longrightarrow> Topics log ! (i + 2) = remainingFilters ! i
          then Panic else Return False)"
    using matchesFrom_short [of log 0 remainingFilters]
    by (simp add: matchesRemainingFilters_def)
  have c: "0 <s compareLogs log logToUse \<and> matchesRemainingFilters log remainingFilters = Panic \<longrightarrow>
       selectLogToUse (log # logs) logToUse remainingFilters = Panic"
    by simp
  have f: "0 <s compareLogs log logToUse \<and> matchesRemainingFilters log remainingFilters = Return False \<longrightarrow>
       selectLogToUse (log # logs) logToUse remainingFilters =
         selectLogToUse logs logToUse remainingFilters"
    by simp
  have g: "matchesRemainingFilters log [] = Return True"
    by (simp add: matchesRemainingFilters_def)
  have d: "\<not> 0 <s compareLogs log logToUse \<longrightarrow>
       selectLogToUse (log # logs) logToUse remainingFilters =
         selectLogToUse logs logToUse remainingFilters"
    by simp
  have e: "bound e \<and> Args (inputInfo e) \<noteq> []
        \<and> convertToOffChainType c e params = Inr offChain
        \<and> TransformForOnChain c offChain = Inr checkedParams
        \<and> encodeParams c checkedParams = Inr (fai # remainingFilters)
        \<and> indexedLogs lp (hash e) (address e) 1 [fai]
             (if pending e then Unconfirmed else Finalized) = Inr candidates
        \<and> selectLogToUse candidates None remainingFilters = Panic \<longrightarrow>
       fst (GetLatestValue c e lp params into) = Panic"
    by (simp add: GetLatestValue_def getLatestValueWithFilters_def IndexedLogs_def)
  from a b c d e f g show ?thesis by blast
qed

text \<open>A newest candidate with two topics and one remaining hash: the read at slot 2 panics.\<close>

theorem narrowing_out_of_bounds_witness:
  "matchesRemainingFilters (exampleShortLog 10 0 1) [exampleHash 2] = Panic
   \<and> selectLogToUse [exampleShortLog 10 0 1] None [exampleHash 2] = Panic"
proof -
  have c: "0 <s compareLogs (exampleShortLog 10 0 1) None"
    by (simp add: compareLogs_def word_sless_alt)
  have s: "length (Topics (exampleShortLog 10 0 1)) < length [exampleHash 2] + 2"
    by (simp add: exampleShortLog_def)
  have v: "\<forall>i. i + 2 < length (Topics (exampleShortLog 10 0 1)) \<longrightarrow>
      Topics (exampleShortLog 10 0 1) ! (i + 2) = [exampleHash 2] ! i"
    by (simp add: exampleShortLog_def)
  from narrowing_out_of_bounds [of "[]" "[exampleHash 2]" None "exampleShortLog 10 0 1"
      exampleBinding exampleCodec "[]" "[]" "[]" "[]" "exampleLogPoller []" "[]" "[]"]
  have "matchesRemainingFilters (exampleShortLog 10 0 1) [exampleHash 2] = Panic"
    and "0 <s compareLogs (exampleShortLog 10 0 1) None
           \<and> matchesRemainingFilters (exampleShortLog 10 0 1) [exampleHash 2] = Panic \<longrightarrow>
         selectLogToUse [exampleShortLog 10 0 1] None [exampleHash 2] = Panic"
    using s v by simp_all
  with c show ?thesis by simp
qed

text \<open>
  C9 as stated fails: a candidate with fewer than \<open>k + 2\<close> topics is dropped silently when
  it is older than the current selection (here \<open>GetLatestValue\<close> succeeds with the other
  log), and when one of the slots it carries differs from its hash (here the result is
  \<open>NotFound\<close>).
\<close>

theorem narrowing_out_of_bounds_counterexample:
  "length (Topics (exampleShortLog 5 0 1)) < length [exampleHash 2] + 2
   \<and> fst (GetLatestValue exampleCodec exampleBinding
            (exampleLogPoller [exampleLog 10 0 1 2, exampleShortLog 5 0 1])
            [exampleHash 1, exampleHash 2] [])
       = Return (Inr [[], exampleHash 1, exampleHash 2])
   \<and> length (Topics (exampleLog 10 0 1 7)) < length [exampleHash 2, exampleHash 3] + 2
   \<and> fst (GetLatestValue exampleCodec exampleThreeInputs
            (exampleLogPoller [exampleLog 10 0 1 7])
            [exampleHash 1, exampleHash 2, exampleHash 3] [])
       = Return (Inl (ErrorfMsg ErrNotFound ''no events found''))"
proof -
  have c: "0 <s compareLogs l None" for l
    by (simp add: compareLogs_def word_sless_alt)
  have o: "\<not> 0 <s compareLogs (exampleShortLog 5 0 1) (Some (exampleLog 10 0 1 2))"
    by (simp add: compareLogs_def exampleShortLog_def exampleLog_def word_sless_alt)
  have m: "matchesRemainingFilters (exampleLog 10 0 1 2) [exampleHash 2] = Return True"
    by (simp add: matchesRemainingFilters_def exampleLog_def)
  have n: "matchesRemainingFilters (exampleLog 10 0 1 7) [exampleHash 2, exampleHash 3] = Return False"
    by (simp add: matchesRemainingFilters_def exampleLog_def exampleHash_def)
  have s1: "selectLogToUse [exampleLog 10 0 1 2, exampleShortLog 5 0 1] None [exampleHash 2]
      = Return (Some (exampleLog 10 0 1 2))"
    using c o m by simp
  have s2: "selectLogToUse [exampleLog 10 0 1 7] None [exampleHash 2, exampleHash 3] = Return None"
    using c n by simp
  have d: "decodeLog exampleCodec exampleBinding (exampleLog 10 0 1 2) []
      = Return (Inr [[], exampleHash 1, exampleHash 2])"
    by (simp add: decodeLog_def exampleCodec_def exampleBinding_def exampleLog_def
        exampleHash_def upt_2)
  have g1: "fst (GetLatestValue exampleCodec exampleBinding
            (exampleLogPoller [exampleLog 10 0 1 2, exampleShortLog 5 0 1])
            [exampleHash 1, exampleHash 2] [])
       = Return (Inr [[], exampleHash 1, exampleHash 2])"
    using s1 d
    by (simp add: GetLatestValue_def getLatestValueWithFilters_def IndexedLogs_def
        convertToOffChainType_def exampleCodec_def exampleBinding_def exampleLogPoller_def)
  have g2: "fst (GetLatestValue exampleCodec exampleThreeInputs
            (exampleLogPoller [exampleLog 10 0 1 7])
            [exampleHash 1, exampleHash 2, exampleHash 3] [])
       = Return (Inl (ErrorfMsg ErrNotFound ''no events found''))"
    using s2
    by (simp add: GetLatestValue_def getLatestValueWithFilters_def IndexedLogs_def
        convertToOffChainType_def exampleCodec_def exampleThreeInputs_def exampleBinding_def
        exampleLogPoller_def)
  show ?thesis using g1 g2 by (simp add: exampleShortLog_def exampleLog_def)
qed

subsection \<open>The query sent to the log poller\<close>

text \<open>
  C5. In the filtered path of \<open>GetLatestValue\<close>, the log poller receives one call,
  \<open>IndexedLogs\<close> with the event signature hash, the bound address, topic slot 1, the
  first computed topic hash alone, and the confirmation policy. The remaining hashes are
  not sent: they are applied to the returned candidates. The result is the decoding of a
  returned candidate whose topics from slot 2 on are the remaining hashes; or \<open>NotFound\<close>,
  and then no returned candidate has them; or a panic, and then some returned candidate
  carries fewer than \<open>k + 2\<close> topics.
\<close>

theorem first_hash_native_rest_client_side:
  assumes "bound e" and "Args (inputInfo e) \<noteq> []"
    and "convertToOffChainType c e params = Inr offChain"
    and "TransformForOnChain c offChain = Inr checkedParams"
    and "encodeParams c checkedParams = Inr (fai # remainingFilters)"
  shows "calls (snd (GetLatestValue c e lp params into)) =
           calls lp @ [CallIndexedLogs (hash e) (address e) 1 [fai]
                         (if pending e then Unconfirmed else Finalized)]
       \<and> (\<forall>logs. indexedLogs lp (hash e) (address e) 1 [fai]
                     (if pending e then Unconfirmed else Finalized) = Inr logs \<longrightarrow>
             (\<not> (\<forall>l\<in>set logs. length remainingFilters + 2 \<le> length (Topics l))
                \<and> fst (GetLatestValue c e lp params into) = Panic)
           \<or> ((\<forall>l\<in>set logs. \<not> (\<forall>i<length remainingFilters.
                    i + 2 < length (Topics l) \<and> Topics l ! (i + 2) = remainingFilters ! i))
                \<and> fst (GetLatestValue c e lp params into) =
                    Return (Inl (ErrorfMsg ErrNotFound ''no events found'')))
           \<or> (\<exists>u\<in>set logs.
                  (\<forall>i<length remainingFilters.
                      i + 2 < length (Topics u) \<and> Topics u ! (i + 2) = remainingFilters ! i)
                \<and> fst (GetLatestValue c e lp params into) = decodeLog c e u into))"
proof -
  have trace: "calls (snd (GetLatestValue c e lp params into)) =
           calls lp @ [CallIndexedLogs (hash e) (address e) 1 [fai]
                         (if pending e then Unconfirmed else Finalized)]"
    using assms
    by (auto simp: GetLatestValue_def getLatestValueWithFilters_def IndexedLogs_def
        split: sum.splits outcome.splits option.splits)
  have rest: "(\<not> (\<forall>l\<in>set logs. length remainingFilters + 2 \<le> length (Topics l))
                \<and> fst (GetLatestValue c e lp params into) = Panic)
           \<or> ((\<forall>l\<in>set logs. \<not> (\<forall>i<length remainingFilters.
                    i + 2 < length (Topics l) \<and> Topics l ! (i + 2) = remainingFilters ! i))
                \<and> fst (GetLatestValue c e lp params into) =
                    Return (Inl (ErrorfMsg ErrNotFound ''no events found'')))
           \<or> (\<exists>u\<in>set logs.
                  (\<forall>i<length remainingFilters.
                      i + 2 < length (Topics u) \<and> Topics u ! (i + 2) = remainingFilters ! i)
                \<and> fst (GetLatestValue c e lp params into) = decodeLog c e u into)"
    if q: "indexedLogs lp (hash e) (address e) 1 [fai]
             (if pending e then Unconfirmed else Finalized) = Inr logs" for logs
  proof -
    have g: "fst (GetLatestValue c e lp params into) =
        (case selectLogToUse logs None remainingFilters of
           Panic \<Rightarrow> Panic
         | Return None \<Rightarrow> Return (Inl (ErrorfMsg ErrNotFound ''no events found''))
         | Return (Some logToUse) \<Rightarrow> decodeLog c e logToUse into)"
      using assms q
      by (simp add: GetLatestValue_def getLatestValueWithFilters_def IndexedLogs_def
          split: outcome.splits option.splits)
    show ?thesis
    proof (cases "selectLogToUse logs None remainingFilters")
      case Panic
      then have "\<not> (\<forall>l\<in>set logs. length remainingFilters + 2 \<le> length (Topics l))"
        using selectLogToUse_no_panic [of logs remainingFilters None] by blast
      with g Panic show ?thesis by simp
    next
      case (Return r)
      show ?thesis
      proof (cases r)
        case None
        with Return have "\<forall>l\<in>set logs. matchesRemainingFilters l remainingFilters = Return False"
          by (intro selectLogToUse_None_result) simp
        then have "\<forall>l\<in>set logs. \<not> (\<forall>i<length remainingFilters.
                    i + 2 < length (Topics l) \<and> Topics l ! (i + 2) = remainingFilters ! i)"
          unfolding matchesRemainingFilters_True_iff [symmetric] by simp
        with g Return None show ?thesis by simp
      next
        case (Some u)
        with Return selectLogToUse_Some_result [of logs None remainingFilters u]
        have "u \<in> set logs" "matchesRemainingFilters u remainingFilters = Return True"
          by simp_all
        then have "u \<in> set logs" "\<forall>i<length remainingFilters.
                      i + 2 < length (Topics u) \<and> Topics u ! (i + 2) = remainingFilters ! i"
          unfolding matchesRemainingFilters_True_iff by simp_all
        with g Return Some show ?thesis by auto
      qed
    qed
  qed
  from trace rest show ?thesis by blast
qed

theorem first_hash_native_rest_client_side_witness:
  "calls (snd (GetLatestValue exampleCodec exampleBinding
                 (exampleLogPoller [(exampleLog 10 2 1 3)\<lparr>Data := [1]\<rparr>,
                                    (exampleLog 9 0 1 2)\<lparr>Data := [2]\<rparr>])
                 [exampleHash 1, exampleHash 2] []))
     = [CallIndexedLogs (exampleHash 9) (replicate 20 1) 1 [exampleHash 1] Finalized]
   \<and> fst (GetLatestValue exampleCodec exampleBinding
            (exampleLogPoller [(exampleLog 10 2 1 3)\<lparr>Data := [1]\<rparr>,
                               (exampleLog 9 0 1 2)\<lparr>Data := [2]\<rparr>])
            [exampleHash 1, exampleHash 2] [])
     = Return (Inr [[2], exampleHash 1, exampleHash 2])"
proof -
  let ?a = "(exampleLog 10 2 1 3)\<lparr>Data := [1]\<rparr>"
  let ?b = "(exampleLog 9 0 1 2)\<lparr>Data := [2]\<rparr>"
  have p: "convertToOffChainType exampleCodec exampleBinding [exampleHash 1, exampleHash 2]
      = Inr [exampleHash 1, exampleHash 2]"
    by (simp add: convertToOffChainType_def exampleCodec_def)
  have q: "TransformForOnChain exampleCodec [exampleHash 1, exampleHash 2]
      = Inr [exampleHash 1, exampleHash 2]"
    "encodeParams exampleCodec [exampleHash 1, exampleHash 2] = Inr (exampleHash 1 # [exampleHash 2])"
    by (simp_all add: exampleCodec_def)
  have e: "bound exampleBinding" "Args (inputInfo exampleBinding) \<noteq> []"
    by (simp_all add: exampleBinding_def)
  have i: "indexedLogs (exampleLogPoller [?a, ?b]) (hash exampleBinding) (address exampleBinding) 1
      [exampleHash 1] (if pending exampleBinding then Unconfirmed else Finalized) = Inr [?a, ?b]"
    by (simp add: exampleLogPoller_def)
  have t: "\<forall>l\<in>set [?a, ?b]. length [exampleHash 2] + 2 \<le> length (Topics l)"
    by (simp add: exampleLog_def)
  have na: "\<not> (\<forall>i<length [exampleHash 2].
      i + 2 < length (Topics ?a) \<and> Topics ?a ! (i + 2) = [exampleHash 2] ! i)"
    by (simp add: exampleLog_def exampleHash_def)
  have mb: "\<forall>i<length [exampleHash 2].
      i + 2 < length (Topics ?b) \<and> Topics ?b ! (i + 2) = [exampleHash 2] ! i"
    by (simp add: exampleLog_def)
  have d: "decodeLog exampleCodec exampleBinding ?b []
      = Return (Inr [[2], exampleHash 1, exampleHash 2])"
    by (simp add: decodeLog_def exampleCodec_def exampleBinding_def exampleLog_def
        exampleHash_def upt_2)
  note inst = first_hash_native_rest_client_side [OF e p q, of "exampleLogPoller [?a, ?b]" "[]"]
  from inst have c: "calls (snd (GetLatestValue exampleCodec exampleBinding
                 (exampleLogPoller [?a, ?b]) [exampleHash 1, exampleHash 2] []))
     = [CallIndexedLogs (exampleHash 9) (replicate 20 1) 1 [exampleHash 1] Finalized]"
    by (simp add: exampleLogPoller_def exampleBinding_def)
  from inst i have "(\<not> (\<forall>l\<in>set [?a, ?b]. length [exampleHash 2] + 2 \<le> length (Topics l))
        \<and> fst (GetLatestValue exampleCodec exampleBinding (exampleLogPoller [?a, ?b])
                 [exampleHash 1, exampleHash 2] []) = Panic)
     \<or> ((\<forall>l\<in>set [?a, ?b]. \<not> (\<forall>i<length [exampleHash 2].
              i + 2 < length (Topics l) \<and> Topics l ! (i + 2) = [exampleHash 2] ! i))
        \<and> fst (GetLatestValue exampleCodec exampleBinding (exampleLogPoller [?a, ?b])
                 [exampleHash 1, exampleHash 2] [])
            = Return (Inl (ErrorfMsg ErrNotFound ''no events found'')))
     \<or> (\<exists>u\<in>set [?a, ?b].
            (\<forall>i<length [exampleHash 2].
                i + 2 < length (Topics u) \<and> Topics u ! (i + 2) = [exampleHash 2] ! i)
          \<and> fst (GetLatestValue exampleCodec exampleBinding (exampleLogPoller [?a, ?b])
                   [exampleHash 1, exampleHash 2] [])
              = decodeLog exampleCodec exampleBinding u [])"
    by blast
  with t na mb have "fst (GetLatestValue exampleCodec exampleBinding (exampleLogPoller [?a, ?b])
                   [exampleHash 1, exampleHash 2] [])
              = decodeLog exampleCodec exampleBinding ?b []"
    by auto
  with c d show ?thesis by simp
qed

subsection \<open>Errors of \<open>GetLatestValue\<close>\<close>

lemma errors_Is_refl: "errors_Is e e"
  by (cases e) simp_all

lemma hasPrefix_iff: "hasPrefix s substr = (\<exists>q. s = substr @ q)"
  by (induction s substr rule: hasPrefix.induct) auto

lemma Contains_iff: "Contains s substr = (\<exists>p q. s = p @ substr @ q)"
proof (induction s)
  case Nil
  then show ?case by simp
next
  case (Cons d s)
  show ?case
  proof
    assume "Contains (d # s) substr"
    then consider "hasPrefix (d # s) substr" | "Contains s substr" by auto
    then show "\<exists>p q. d # s = p @ substr @ q"
    proof cases
      case 1
      then obtain q where "d # s = substr @ q" by (auto simp: hasPrefix_iff)
      then have "d # s = [] @ substr @ q" by simp
      then show ?thesis by blast
    next
      case 2
      with Cons.IH obtain p q where "s = p @ substr @ q" by auto
      then have "d # s = (d # p) @ substr @ q" by simp
      then show ?thesis by blast
    qed
  next
    assume "\<exists>p q. d # s = p @ substr @ q"
    then obtain p q where pq: "d # s = p @ substr @ q" by auto
    show "Contains (d # s) substr"
    proof (cases p)
      case Nil
      with pq have "hasPrefix (d # s) substr" by (auto simp: hasPrefix_iff)
      then show ?thesis by simp
    next
      case (Cons d' p')
      with pq have "s = p' @ substr @ q" by simp
      with Cons.IH have "Contains s substr" by auto
      then show ?thesis by simp
    qed
  qed
qed

text \<open>
  C6. \<open>wrapInternalErr\<close> maps a nil error to nil; an error whose text contains
  "not found" or "no rows" to an error that wraps \<open>NotFound\<close> and the error itself; any
  other error to an error that wraps \<open>Internal\<close> and the error itself. The text of the
  result is the text of the sentinel, a colon and the text of the original error.
\<close>

theorem wrapInternalErr_policy:
  "wrapInternalErr st None = None
   \<and> ((\<exists>p q. Error st e = p @ ''not found'' @ q) \<or> (\<exists>p q. Error st e = p @ ''no rows'' @ q) \<longrightarrow>
        (\<exists>w. wrapInternalErr st (Some e) = Some w \<and> w = Errorf2 ErrNotFound e
              \<and> errors_Is w ErrNotFound \<and> errors_Is w e
              \<and> Error st w = st ErrNotFound @ '': '' @ Error st e))
   \<and> (\<not> ((\<exists>p q. Error st e = p @ ''not found'' @ q) \<or> (\<exists>p q. Error st e = p @ ''no rows'' @ q)) \<longrightarrow>
        (\<exists>w. wrapInternalErr st (Some e) = Some w \<and> w = Errorf2 ErrInternal e
              \<and> errors_Is w ErrInternal \<and> errors_Is w e
              \<and> Error st w = st ErrInternal @ '': '' @ Error st e))"
  unfolding Contains_iff [symmetric]
  by (simp add: wrapInternalErr_def errors_Is_refl Let_def)

theorem wrapInternalErr_policy_witness:
  "wrapInternalErr (sentinelText exampleCodec) (Some (External ''sql: no rows in result set''))
     = Some (Errorf2 ErrNotFound (External ''sql: no rows in result set''))
   \<and> wrapInternalErr (sentinelText exampleCodec) (Some (External ''connection refused''))
     = Some (Errorf2 ErrInternal (External ''connection refused''))"
proof -
  have a: "\<exists>p q. Error (sentinelText exampleCodec) (External ''sql: no rows in result set'') = p @ ''no rows'' @ q"
    unfolding Contains_iff [symmetric] by simp
  have b: "\<not> ((\<exists>p q. Error (sentinelText exampleCodec) (External ''connection refused'') = p @ ''not found'' @ q)
      \<or> (\<exists>p q. Error (sentinelText exampleCodec) (External ''connection refused'') = p @ ''no rows'' @ q))"
    unfolding Contains_iff [symmetric] by simp
  from wrapInternalErr_policy [of "sentinelText exampleCodec" "External ''sql: no rows in result set''"] a
  have 1: "wrapInternalErr (sentinelText exampleCodec) (Some (External ''sql: no rows in result set''))
     = Some (Errorf2 ErrNotFound (External ''sql: no rows in result set''))" by blast
  from wrapInternalErr_policy [of "sentinelText exampleCodec" "External ''connection refused''"] b
  have 2: "wrapInternalErr (sentinelText exampleCodec) (Some (External ''connection refused''))
     = Some (Errorf2 ErrInternal (External ''connection refused''))" by blast
  from 1 2 show ?thesis by simp
qed

text \<open>
  C4, as the code has it. \<open>GetLatestValue\<close> returns an error wrapping \<open>InvalidType\<close>
  (a) when the binding is not bound, with the text "event not bound" and the log poller
  untouched, and (b) when the log selected for decoding, in either path, carries fewer
  topics than the topic schema has fields plus one, provided that the codec has decoded
  the data of the log: \<open>decodeLog\<close> calls \<open>Decode\<close> first and returns its error as it is.
\<close>

theorem invalid_type_errors:
  "(\<not> bound e \<longrightarrow>
      GetLatestValue c e lp params into =
        (Return (Inl (ErrorfMsg ErrInvalidType ''event not bound'')), lp))
   \<and> (Decode c (Data log) into (WrapItemType c (contractName e) (eventName e) False) = Inr decoded
        \<and> length (Topics log) < length (Args (topicInfo e)) + 1 \<longrightarrow>
      decodeLog c e log into =
        Return (Inl (ErrorfMsg ErrInvalidType ''not enough topics to decode'')))
   \<and> (Decode c (Data log) into (WrapItemType c (contractName e) (eventName e) False) = Inl err \<longrightarrow>
      decodeLog c e log into = Return (Inl err))
   \<and> (bound e \<and> Args (inputInfo e) = []
        \<and> latestLog lp (hash e) (address e) (if pending e then Unconfirmed else Finalized) = Inr log \<longrightarrow>
      fst (GetLatestValue c e lp params into) = decodeLog c e log into)
   \<and> (bound e \<and> Args (inputInfo e) \<noteq> []
        \<and> convertToOffChainType c e params = Inr offChain
        \<and> TransformForOnChain c offChain = Inr checkedParams
        \<and> encodeParams c checkedParams = Inr (fai # remainingFilters)
        \<and> indexedLogs lp (hash e) (address e) 1 [fai]
             (if pending e then Unconfirmed else Finalized) = Inr logs
        \<and> selectLogToUse logs None remainingFilters = Return (Some log) \<longrightarrow>
      fst (GetLatestValue c e lp params into) = decodeLog c e log into)
   \<and> errors_Is (ErrorfMsg ErrInvalidType text) ErrInvalidType
   \<and> Error st (ErrorfMsg ErrInvalidType ''event not bound'') = st ErrInvalidType @ '': event not bound''"
proof -
  have a: "\<not> bound e \<longrightarrow>
      GetLatestValue c e lp params into =
        (Return (Inl (ErrorfMsg ErrInvalidType ''event not bound'')), lp)"
    by (simp add: GetLatestValue_def)
  have b: "Decode c (Data log) into (WrapItemType c (contractName e) (eventName e) False) = Inr decoded
        \<and> length (Topics log) < length (Args (topicInfo e)) + 1 \<longrightarrow>
      decodeLog c e log into =
        Return (Inl (ErrorfMsg ErrInvalidType ''not enough topics to decode''))"
    by (simp add: decodeLog_def)
  have b': "Decode c (Data log) into (WrapItemType c (contractName e) (eventName e) False) = Inl err \<longrightarrow>
      decodeLog c e log into = Return (Inl err)"
    by (simp add: decodeLog_def)
  have c: "bound e \<and> Args (inputInfo e) = []
        \<and> latestLog lp (hash e) (address e) (if pending e then Unconfirmed else Finalized) = Inr log \<longrightarrow>
      fst (GetLatestValue c e lp params into) = decodeLog c e log into"
    by (simp add: GetLatestValue_def getLatestValueWithoutFilters_def
        LatestLogByEventSigWithConfs_def wrapInternalErr_def)
  have d: "bound e \<and> Args (inputInfo e) \<noteq> []
        \<and> convertToOffChainType c e params = Inr offChain
        \<and> TransformForOnChain c offChain = Inr checkedParams
        \<and> encodeParams c checkedParams = Inr (fai # remainingFilters)
        \<and> indexedLogs lp (hash e) (address e) 1 [fai]
             (if pending e then Unconfirmed else Finalized) = Inr logs
        \<and> selectLogToUse logs None remainingFilters = Return (Some log) \<longrightarrow>
      fst (GetLatestValue c e lp params into) = decodeLog c e log into"
    by (simp add: GetLatestValue_def getLatestValueWithFilters_def IndexedLogs_def)
  have e: "errors_Is (ErrorfMsg ErrInvalidType text) ErrInvalidType"
    "Error st (ErrorfMsg ErrInvalidType ''event not bound'') = st ErrInvalidType @ '': event not bound''"
    by simp_all
  from a b b' c d e show ?thesis by blast
qed

theorem invalid_type_errors_witness:
  "GetLatestValue exampleCodec (exampleBinding\<lparr>bound := False\<rparr>) (exampleLogPoller [])
       [exampleHash 1] []
     = (Return (Inl (ErrorfMsg ErrInvalidType ''event not bound'')), exampleLogPoller [])
   \<and> fst (GetLatestValue exampleCodec exampleOneInput (exampleLogPoller [exampleShortLog 10 0 1])
            [exampleHash 1] [])
     = Return (Inl (ErrorfMsg ErrInvalidType ''not enough topics to decode''))"
proof -
  note t = invalid_type_errors [of _ exampleCodec _ "[exampleHash 1]" "[]" "exampleShortLog 10 0 1"
      "[[]]" "External []" "[exampleHash 1]" "[exampleHash 1]" "exampleHash 1" "[]"
      "[exampleShortLog 10 0 1]" "[]" "\<lambda>err. []"]
  have c: "0 <s compareLogs l None" for l
    by (simp add: compareLogs_def word_sless_alt)
  have s: "selectLogToUse [exampleShortLog 10 0 1] None [] = Return (Some (exampleShortLog 10 0 1))"
    using c by (simp add: matchesRemainingFilters_def)
  have p: "convertToOffChainType exampleCodec exampleOneInput [exampleHash 1] = Inr [exampleHash 1]"
    by (simp add: convertToOffChainType_def exampleCodec_def)
  have q: "TransformForOnChain exampleCodec [exampleHash 1] = Inr [exampleHash 1]"
    "encodeParams exampleCodec [exampleHash 1] = Inr [exampleHash 1]"
    "Decode exampleCodec (Data (exampleShortLog 10 0 1)) []
       (WrapItemType exampleCodec (contractName exampleOneInput) (eventName exampleOneInput) False)
       = Inr [[]]"
    by (simp_all add: exampleCodec_def exampleShortLog_def)
  have e: "bound exampleOneInput" "Args (inputInfo exampleOneInput) \<noteq> []"
    "length (Topics (exampleShortLog 10 0 1)) < length (Args (topicInfo exampleOneInput)) + 1"
    "indexedLogs (exampleLogPoller [exampleShortLog 10 0 1]) (hash exampleOneInput)
       (address exampleOneInput) 1 [exampleHash 1]
       (if pending exampleOneInput then Unconfirmed else Finalized) = Inr [exampleShortLog 10 0 1]"
    by (simp_all add: exampleOneInput_def exampleBinding_def exampleShortLog_def exampleLogPoller_def)
  have u: "\<not> bound (exampleBinding\<lparr>bound := False\<rparr>)" by simp
  from t [of "exampleBinding\<lparr>bound := False\<rparr>" "exampleLogPoller []"] u
  have 1: "GetLatestValue exampleCodec (exampleBinding\<lparr>bound := False\<rparr>) (exampleLogPoller [])
       [exampleHash 1] []
     = (Return (Inl (ErrorfMsg ErrInvalidType ''event not bound'')), exampleLogPoller [])"
    by blast
  from t [of exampleOneInput "exampleLogPoller [exampleShortLog 10 0 1]"] s p q e
  have 2: "fst (GetLatestValue exampleCodec exampleOneInput (exampleLogPoller [exampleShortLog 10 0 1])
            [exampleHash 1] [])
     = Return (Inl (ErrorfMsg ErrInvalidType ''not enough topics to decode''))"
    by simp
  from 1 2 show ?thesis by simp
qed

text \<open>
  C4 as stated fails: the selected log has two topics where three are required, the codec
  fails on its data, and \<open>GetLatestValue\<close> returns the error of the codec, which does not
  wrap \<open>InvalidType\<close>.
\<close>

theorem invalid_type_errors_counterexample:
  "length (Topics (exampleShortLog 10 0 1)) < length (Args (topicInfo exampleOneInput)) + 1
   \<and> selectLogToUse [exampleShortLog 10 0 1] None [] = Return (Some (exampleShortLog 10 0 1))
   \<and> fst (GetLatestValue exampleFailingCodec exampleOneInput
            (exampleLogPoller [exampleShortLog 10 0 1]) [exampleHash 1] [])
       = Return (Inl (External ''abi: cannot unmarshal''))
   \<and> \<not> errors_Is (External ''abi: cannot unmarshal'') ErrInvalidType"
proof -
  have c: "0 <s compareLogs l None" for l
    by (simp add: compareLogs_def word_sless_alt)
  have s: "selectLogToUse [exampleShortLog 10 0 1] None [] = Return (Some (exampleShortLog 10 0 1))"
    using c by (simp add: matchesRemainingFilters_def)
  have d: "decodeLog exampleFailingCodec exampleOneInput (exampleShortLog 10 0 1) []
      = Return (Inl (External ''abi: cannot unmarshal''))"
    by (simp add: decodeLog_def exampleFailingCodec_def exampleCodec_def)
  have g: "fst (GetLatestValue exampleFailingCodec exampleOneInput
            (exampleLogPoller [exampleShortLog 10 0 1]) [exampleHash 1] [])
       = Return (Inl (External ''abi: cannot unmarshal''))"
    using s d
    by (simp add: GetLatestValue_def getLatestValueWithFilters_def IndexedLogs_def
        convertToOffChainType_def exampleFailingCodec_def exampleCodec_def exampleOneInput_def
        exampleBinding_def exampleLogPoller_def)
  show ?thesis
    using s g by (simp add: exampleShortLog_def exampleOneInput_def exampleBinding_def)
qed

subsection \<open>The filter lifecycle\<close>

lemma Unregister_cases:
  "Unregister e lp =
     (if filterSet lp (id' e) = None
      then (None, e, lp\<lparr>calls := calls lp @ [CallHasFilter (id' e)]\<rparr>)
      else case nextOutcome lp of
        Some err \<Rightarrow>
          (Some (Errorf2 ErrInternal err), e,
           lp\<lparr>calls := calls lp @ [CallHasFilter (id' e), CallUnregisterFilter (id' e)],
              outcomes := tl (outcomes lp)\<rparr>)
      | None \<Rightarrow>
          (None, e,
           lp\<lparr>calls := calls lp @ [CallHasFilter (id' e), CallUnregisterFilter (id' e)],
              outcomes := tl (outcomes lp),
              filterSet := (filterSet lp)(id' e := None)\<rparr>))"
  by (auto simp: Unregister_def HasFilter_def UnregisterFilter_def nextOutcome_def Let_def
      split: option.splits list.splits)

lemma Register_cases:
  "Register e lp =
     (if \<not> bound e then (None, e\<lparr>registerCalled := True\<rparr>, lp)
      else if filterSet lp (id' e) \<noteq> None
      then (None, e\<lparr>registerCalled := True\<rparr>, lp\<lparr>calls := calls lp @ [CallHasFilter (id' e)]\<rparr>)
      else case nextOutcome lp of
        Some err \<Rightarrow>
          (Some (Errorf2 ErrInternal err), e\<lparr>registerCalled := True\<rparr>,
           lp\<lparr>calls := calls lp @ [CallHasFilter (id' e),
                  CallRegisterFilter \<lparr>Name = id' e, EventSigs = [hash e], Addresses = [address e]\<rparr>],
              outcomes := tl (outcomes lp)\<rparr>)
      | None \<Rightarrow>
          (None, e\<lparr>registerCalled := True\<rparr>,
           lp\<lparr>calls := calls lp @ [CallHasFilter (id' e),
                  CallRegisterFilter \<lparr>Name = id' e, EventSigs = [hash e], Addresses = [address e]\<rparr>],
              outcomes := tl (outcomes lp),
              filterSet := (filterSet lp)(id' e \<mapsto>
                  \<lparr>Name = id' e, EventSigs = [hash e], Addresses = [address e]\<rparr>)\<rparr>))"
  by (auto simp: Register_def HasFilter_def RegisterFilter_def nextOutcome_def Let_def
      split: option.splits list.splits)

lemma Unregister_binding: "fst (snd (Unregister e lp)) = e"
  by (simp add: Unregister_cases split: option.splits)

lemma Unregister_ok_removes:
  "Unregister e lp = (None, e1, lp1) \<Longrightarrow> filterSet lp1 (id' e) = None"
  by (auto simp: Unregister_cases split: if_splits option.splits)

text \<open>
  C3. \<open>Bind\<close> runs \<open>Unregister\<close> first. When that fails, \<open>Bind\<close> returns its error and
  the binding is as before (address, pending flag and bound flag included). Otherwise no
  filter is left under the identifier of the binding, the address and the pending flag are
  the new ones, the binding is bound, and \<open>Register\<close> runs on the updated binding exactly
  when \<open>registerCalled\<close> was set: the log poller then receives \<open>RegisterFilter\<close> with the
  new address, and no further call otherwise.
\<close>

theorem Bind_unregisters_sets_registers:
  "(Unregister e lp = (Some err, e1, lp1) \<longrightarrow>
      Bind HexToAddress e lp binding = (Some err, e, lp1))
   \<and> (Unregister e lp = (None, e1, lp1) \<longrightarrow>
      filterSet lp1 (id' e) = None
      \<and> Bind HexToAddress e lp binding =
          (if registerCalled e
           then Register (e\<lparr>address := HexToAddress (Address binding),
                            pending := Pending binding, bound := True\<rparr>) lp1
           else (None, e\<lparr>address := HexToAddress (Address binding),
                          pending := Pending binding, bound := True\<rparr>, lp1))
      \<and> address (fst (snd (Bind HexToAddress e lp binding))) = HexToAddress (Address binding)
      \<and> pending (fst (snd (Bind HexToAddress e lp binding))) = Pending binding
      \<and> bound (fst (snd (Bind HexToAddress e lp binding)))
      \<and> calls (snd (snd (Bind HexToAddress e lp binding))) =
          calls lp1 @
          (if registerCalled e
           then [CallHasFilter (id' e),
                 CallRegisterFilter \<lparr>Name = id' e, EventSigs = [hash e],
                                     Addresses = [HexToAddress (Address binding)]\<rparr>]
           else []))"
proof -
  have same: "e1 = e" if "Unregister e lp = (r, e1, lp1)" for r
    using that Unregister_binding [of e lp] by simp
  have fail: "Unregister e lp = (Some err, e1, lp1) \<longrightarrow>
      Bind HexToAddress e lp binding = (Some err, e, lp1)"
    using same by (auto simp: Bind_def)
  have ok: "filterSet lp1 (id' e) = None
      \<and> Bind HexToAddress e lp binding =
          (if registerCalled e
           then Register (e\<lparr>address := HexToAddress (Address binding),
                            pending := Pending binding, bound := True\<rparr>) lp1
           else (None, e\<lparr>address := HexToAddress (Address binding),
                          pending := Pending binding, bound := True\<rparr>, lp1))
      \<and> address (fst (snd (Bind HexToAddress e lp binding))) = HexToAddress (Address binding)
      \<and> pending (fst (snd (Bind HexToAddress e lp binding))) = Pending binding
      \<and> bound (fst (snd (Bind HexToAddress e lp binding)))
      \<and> calls (snd (snd (Bind HexToAddress e lp binding))) =
          calls lp1 @
          (if registerCalled e
           then [CallHasFilter (id' e),
                 CallRegisterFilter \<lparr>Name = id' e, EventSigs = [hash e],
                                     Addresses = [HexToAddress (Address binding)]\<rparr>]
           else [])"
    if u: "Unregister e lp = (None, e1, lp1)"
  proof -
    have none: "filterSet lp1 (id' e) = None"
      using u by (rule Unregister_ok_removes)
    have b: "Bind HexToAddress e lp binding =
          (if registerCalled e
           then Register (e\<lparr>address := HexToAddress (Address binding),
                            pending := Pending binding, bound := True\<rparr>) lp1
           else (None, e\<lparr>address := HexToAddress (Address binding),
                          pending := Pending binding, bound := True\<rparr>, lp1))"
      using u same [OF u] by (simp add: Bind_def)
    show ?thesis
      unfolding b using none
      by (simp add: Register_cases split: option.splits)
  qed
  from fail ok show ?thesis by blast
qed

text \<open>
  \<open>Register\<close> once, then \<open>Bind\<close> to a new address: one filter under the identifier, at
  the new address.
\<close>

theorem Bind_unregisters_sets_registers_witness:
  "filterSet exampleRegistered ''binding-1''
     = Some \<lparr>Name = ''binding-1'', EventSigs = [exampleHash 9], Addresses = [replicate 20 1]\<rparr>
   \<and> fst (Bind exampleHexToAddress (exampleBinding\<lparr>registerCalled := True\<rparr>) exampleRegistered
           \<lparr>Address = ''0xbeef'', Pending = True\<rparr>) = None
   \<and> filterSet (snd (snd (Bind exampleHexToAddress (exampleBinding\<lparr>registerCalled := True\<rparr>)
           exampleRegistered \<lparr>Address = ''0xbeef'', Pending = True\<rparr>))) ''binding-1''
     = Some \<lparr>Name = ''binding-1'', EventSigs = [exampleHash 9], Addresses = [replicate 20 6]\<rparr>"
proof -
  let ?e = "exampleBinding\<lparr>registerCalled := True\<rparr>"
  let ?lp1 = "exampleRegistered\<lparr>calls := calls exampleRegistered
        @ [CallHasFilter ''binding-1'', CallUnregisterFilter ''binding-1''],
      outcomes := tl (outcomes exampleRegistered),
      filterSet := (filterSet exampleRegistered)(''binding-1'' := None)\<rparr>"
  have r: "filterSet exampleRegistered ''binding-1''
     = Some \<lparr>Name = ''binding-1'', EventSigs = [exampleHash 9], Addresses = [replicate 20 1]\<rparr>"
    "nextOutcome exampleRegistered = None"
    by (simp_all add: exampleRegistered_def Register_cases exampleBinding_def
        exampleLogPoller_def nextOutcome_def)
  have i: "id' ?e = ''binding-1''" "registerCalled ?e" "hash ?e = exampleHash 9"
    by (simp_all add: exampleBinding_def)
  have u: "Unregister ?e exampleRegistered = (None, ?e, ?lp1)"
    using r i by (simp add: Unregister_cases)
  have n: "nextOutcome ?lp1 = None"
    by (simp add: exampleRegistered_def Register_cases exampleBinding_def
        exampleLogPoller_def nextOutcome_def)
  from Bind_unregisters_sets_registers [of ?e exampleRegistered "External []" ?e ?lp1
      exampleHexToAddress "\<lparr>Address = ''0xbeef'', Pending = True\<rparr>"] u i
  have b: "Bind exampleHexToAddress ?e exampleRegistered \<lparr>Address = ''0xbeef'', Pending = True\<rparr>
      = Register (?e\<lparr>address := exampleHexToAddress ''0xbeef'', pending := True, bound := True\<rparr>) ?lp1"
    by simp
  show ?thesis
    unfolding b using r(1) n i
    by (simp add: Register_cases exampleHexToAddress_def)
qed

lemma step_keeps_unregistered:
  assumes "x \<noteq> OpRegister" and "\<not> registerCalled e" and "filterSet lp (id' e) = None"
    and "step HexToAddress x (e, lp) = (e', lp')"
  shows "id' e' = id' e \<and> \<not> registerCalled e' \<and> filterSet lp' (id' e) = None
       \<and> filter isRegisterFilterCall (calls lp') = filter isRegisterFilterCall (calls lp)"
proof (cases x)
  case OpRegister
  with assms(1) show ?thesis by simp
next
  case OpUnregister
  with assms show ?thesis by (auto simp: Unregister_cases)
next
  case (OpBind binding)
  with assms show ?thesis by (auto simp: Bind_def Unregister_cases)
qed

lemma statesOf_keep_unregistered:
  assumes "OpRegister \<notin> set ops" and "\<not> registerCalled e" and "filterSet lp (id' e) = None"
    and "(e', lp') \<in> set (statesOf HexToAddress ops (e, lp))"
  shows "id' e' = id' e \<and> \<not> registerCalled e' \<and> filterSet lp' (id' e) = None
       \<and> filter isRegisterFilterCall (calls lp') = filter isRegisterFilterCall (calls lp)"
  using assms
proof (induction ops arbitrary: e lp)
  case Nil
  then show ?case by simp
next
  case (Cons x xs)
  obtain e1 lp1 where s: "step HexToAddress x (e, lp) = (e1, lp1)"
    by (cases "step HexToAddress x (e, lp)")
  have x: "x \<noteq> OpRegister" using Cons.prems(1) by auto
  note k = step_keeps_unregistered [OF x Cons.prems(2,3) s]
  from Cons.prems(4) consider "(e', lp') = (e, lp)"
    | "(e', lp') \<in> set (statesOf HexToAddress xs (e1, lp1))"
    using s by auto
  then show ?case
  proof cases
    case 1
    with Cons.prems show ?thesis by simp
  next
    case 2
    have "id' e' = id' e1 \<and> \<not> registerCalled e' \<and> filterSet lp' (id' e1) = None
       \<and> filter isRegisterFilterCall (calls lp') = filter isRegisterFilterCall (calls lp1)"
      using Cons.prems(1) k 2 by (intro Cons.IH) auto
    with k show ?thesis by simp
  qed
qed

text \<open>
  C7. Along every sequence of \<open>Bind\<close> and \<open>Unregister\<close> operations on a binding on which
  \<open>Register\<close> has never been called, starting with no filter under its identifier, the
  log poller holds no filter under that identifier in any state reached, and receives no
  \<open>RegisterFilter\<close> call.
\<close>

theorem no_filter_without_Register:
  assumes "OpRegister \<notin> set ops" and "\<not> registerCalled e" and "filterSet lp (id' e) = None"
  shows "\<forall>(e', lp') \<in> set (statesOf HexToAddress ops (e, lp)).
           id' e' = id' e
         \<and> fst (HasFilter lp' (id' e)) = False
         \<and> filter isRegisterFilterCall (calls lp') = filter isRegisterFilterCall (calls lp)"
  using statesOf_keep_unregistered [OF assms]
  by (auto simp: HasFilter_def)

lemma length_statesOf: "length (statesOf HexToAddress ops s) = Suc (length ops)"
  by (induction ops arbitrary: s) simp_all

lemma map_constant: "\<forall>x\<in>set xs. f x = c \<Longrightarrow> map f xs = replicate (length xs) c"
  by (induction xs) simp_all

text \<open>\<open>Bind\<close>, \<open>Unregister\<close>, \<open>Bind\<close> on a fresh binding: no filter in any of the four states.\<close>

theorem no_filter_without_Register_witness:
  "map (\<lambda>(e', lp'). (fst (HasFilter lp' ''binding-1''), filter isRegisterFilterCall (calls lp')))
     (statesOf exampleHexToAddress
        [OpBind \<lparr>Address = ''0xbeef'', Pending = False\<rparr>, OpUnregister,
         OpBind \<lparr>Address = ''0xcafe'', Pending = True\<rparr>]
        (exampleBinding\<lparr>bound := False\<rparr>, exampleLogPoller []))
   = [(False, []), (False, []), (False, []), (False, [])]"
proof -
  let ?ops = "[OpBind \<lparr>Address = ''0xbeef'', Pending = False\<rparr>, OpUnregister,
         OpBind \<lparr>Address = ''0xcafe'', Pending = True\<rparr>]"
  have a: "OpRegister \<notin> set ?ops" by simp
  have b: "\<not> registerCalled (exampleBinding\<lparr>bound := False\<rparr>)"
    "filterSet (exampleLogPoller []) (id' (exampleBinding\<lparr>bound := False\<rparr>)) = None"
    by (simp_all add: exampleBinding_def exampleLogPoller_def)
  have c: "id' (exampleBinding\<lparr>bound := False\<rparr>) = ''binding-1''"
    "calls (exampleLogPoller []) = []"
    by (simp_all add: exampleBinding_def exampleLogPoller_def)
  from no_filter_without_Register [OF a b, of exampleHexToAddress]
  have "\<forall>x\<in>set (statesOf exampleHexToAddress ?ops
          (exampleBinding\<lparr>bound := False\<rparr>, exampleLogPoller [])).
      (\<lambda>(e', lp'). (fst (HasFilter lp' ''binding-1''), filter isRegisterFilterCall (calls lp'))) x
        = (False, [])"
    unfolding c by fastforce
  from map_constant [OF this]
  show ?thesis
    unfolding length_statesOf by (simp add: numeral_3_eq_3)
qed

text \<open>
  C8. For two bindings with distinct subscription identifiers, \<open>Register\<close> and
  \<open>Unregister\<close> on the first leave the presence of the filter of the second as it was:
  they change the filter set at most under the identifier of the first binding.
\<close>

theorem other_bindings_filter_untouched:
  assumes "id' e1 \<noteq> id' e2"
  shows "fst (HasFilter (snd (snd (Register e1 lp))) (id' e2)) = fst (HasFilter lp (id' e2))
       \<and> fst (HasFilter (snd (snd (Unregister e1 lp))) (id' e2)) = fst (HasFilter lp (id' e2))
       \<and> (\<forall>name. name \<noteq> id' e1 \<longrightarrow>
             filterSet (snd (snd (Register e1 lp))) name = filterSet lp name
           \<and> filterSet (snd (snd (Unregister e1 lp))) name = filterSet lp name)"
  using assms
  by (auto simp: HasFilter_def Register_cases Unregister_cases split: option.splits)

text \<open>
  Two bindings on the same event signature and address: registering and unregistering the
  second leaves the registered filter of the first in place.
\<close>

theorem other_bindings_filter_untouched_witness:
  "hash exampleOtherBinding = hash exampleBinding
   \<and> address exampleOtherBinding = address exampleBinding
   \<and> fst (HasFilter exampleRegistered (id' exampleBinding))
   \<and> fst (HasFilter (snd (snd (Register exampleOtherBinding exampleRegistered))) (id' exampleBinding))
   \<and> fst (HasFilter (snd (snd (Unregister exampleOtherBinding exampleRegistered))) (id' exampleBinding))"
proof -
  have d: "id' exampleOtherBinding \<noteq> id' exampleBinding"
    by (simp add: exampleOtherBinding_def exampleBinding_def)
  have h: "fst (HasFilter exampleRegistered (id' exampleBinding))"
    by (simp add: HasFilter_def exampleRegistered_def Register_cases exampleBinding_def
        exampleLogPoller_def nextOutcome_def)
  from other_bindings_filter_untouched [OF d, of exampleRegistered] h
  show ?thesis by (simp add: exampleOtherBinding_def)
qed

lemma Bind_latched:
  assumes "registerCalled e"
  shows "fst (Bind HexToAddress e lp binding) = None \<longrightarrow>
           filterSet (snd (snd (Bind HexToAddress e lp binding))) (id' e)
             = Some \<lparr>Name = id' e, EventSigs = [hash e],
                     Addresses = [HexToAddress (Address binding)]\<rparr>"
proof (cases "Unregister e lp")
  case (fields r e1 lp1)
  have e1: "e1 = e" using fields Unregister_binding [of e lp] by simp
  show ?thesis
  proof (cases r)
    case (Some err)
    with fields show ?thesis by (simp add: Bind_def)
  next
    case None
    with fields have none: "filterSet lp1 (id' e) = None"
      by (intro Unregister_ok_removes [of e lp e1 lp1]) simp
    have "Bind HexToAddress e lp binding =
        Register (e\<lparr>address := HexToAddress (Address binding),
                     pending := Pending binding, bound := True\<rparr>) lp1"
      using fields None e1 assms by (simp add: Bind_def)
    then show ?thesis
      using none by (simp add: Register_cases split: option.splits)
  qed
qed

lemma Bind_latched_accepts:
  assumes "registerCalled e" and "filterSet lp (id' e) = None" and "nextOutcome lp = None"
  shows "fst (Bind HexToAddress e lp binding) = None
       \<and> calls (snd (snd (Bind HexToAddress e lp binding)))
           = calls lp @ [CallHasFilter (id' e), CallHasFilter (id' e),
                         CallRegisterFilter \<lparr>Name = id' e, EventSigs = [hash e],
                                             Addresses = [HexToAddress (Address binding)]\<rparr>]"
proof -
  have u: "Unregister e lp = (None, e, lp\<lparr>calls := calls lp @ [CallHasFilter (id' e)]\<rparr>)"
    using assms(2) by (simp add: Unregister_cases)
  have n: "nextOutcome (lp\<lparr>calls := calls lp @ [CallHasFilter (id' e)]\<rparr>) = None"
    using assms(3) by (simp add: nextOutcome_def)
  have "Bind HexToAddress e lp binding =
      Register (e\<lparr>address := HexToAddress (Address binding),
                   pending := Pending binding, bound := True\<rparr>)
        (lp\<lparr>calls := calls lp @ [CallHasFilter (id' e)]\<rparr>)"
    using u assms(1) by (simp add: Bind_def)
  then show ?thesis
    using assms(2) n by (simp add: Register_cases)
qed

text \<open>
  C10. \<open>Register\<close> on a binding that is not bound returns no error, makes no call on
  the log poller and registers no filter, and sets \<open>registerCalled\<close>. A following
  \<open>Bind\<close> that returns no error leaves a filter under the identifier of the binding, at
  the new address; it returns no error when no filter is there and the log poller accepts
  the registration, and then the log poller has received \<open>RegisterFilter\<close>.
\<close>

theorem Register_before_Bind_latches:
  assumes "\<not> bound e"
  shows "Register e lp = (None, e\<lparr>registerCalled := True\<rparr>, lp)
       \<and> (fst (Bind HexToAddress (e\<lparr>registerCalled := True\<rparr>) lp binding) = None \<longrightarrow>
            filterSet (snd (snd (Bind HexToAddress (e\<lparr>registerCalled := True\<rparr>) lp binding))) (id' e)
              = Some \<lparr>Name = id' e, EventSigs = [hash e],
                      Addresses = [HexToAddress (Address binding)]\<rparr>)
       \<and> (filterSet lp (id' e) = None \<and> nextOutcome lp = None \<longrightarrow>
            fst (Bind HexToAddress (e\<lparr>registerCalled := True\<rparr>) lp binding) = None
          \<and> calls (snd (snd (Bind HexToAddress (e\<lparr>registerCalled := True\<rparr>) lp binding)))
              = calls lp @ [CallHasFilter (id' e), CallHasFilter (id' e),
                            CallRegisterFilter \<lparr>Name = id' e, EventSigs = [hash e],
                                                Addresses = [HexToAddress (Address binding)]\<rparr>])"
proof -
  have r: "Register e lp = (None, e\<lparr>registerCalled := True\<rparr>, lp)"
    using assms by (simp add: Register_cases)
  have l: "registerCalled (e\<lparr>registerCalled := True\<rparr>)" by simp
  from Bind_latched [OF l, of HexToAddress lp binding]
    Bind_latched_accepts [OF l, of lp HexToAddress binding] r
  show ?thesis by simp
qed

theorem Register_before_Bind_latches_witness:
  "Register (exampleBinding\<lparr>bound := False\<rparr>) (exampleLogPoller [])
     = (None, exampleBinding\<lparr>bound := False, registerCalled := True\<rparr>, exampleLogPoller [])
   \<and> filterSet (snd (snd (Bind exampleHexToAddress
         (exampleBinding\<lparr>bound := False, registerCalled := True\<rparr>) (exampleLogPoller [])
         \<lparr>Address = ''0xbeef'', Pending = False\<rparr>))) ''binding-1''
     = Some \<lparr>Name = ''binding-1'', EventSigs = [exampleHash 9], Addresses = [replicate 20 6]\<rparr>"
proof -
  have a: "\<not> bound (exampleBinding\<lparr>bound := False\<rparr>)" by simp
  have b: "filterSet (exampleLogPoller []) (id' (exampleBinding\<lparr>bound := False\<rparr>)) = None"
    "nextOutcome (exampleLogPoller []) = None"
    by (simp_all add: exampleLogPoller_def nextOutcome_def)
  have c: "id' (exampleBinding\<lparr>bound := False\<rparr>) = ''binding-1''"
    "hash (exampleBinding\<lparr>bound := False\<rparr>) = exampleHash 9"
    by (simp_all add: exampleBinding_def)
  from Register_before_Bind_latches [OF a, of "exampleLogPoller []" exampleHexToAddress
      "\<lparr>Address = ''0xbeef'', Pending = False\<rparr>"] b
  show ?thesis
    unfolding c by (simp add: exampleHexToAddress_def)
qed

end
